theory Spec2Isabelle
  imports Main "HOL-Library.Word" "HOL-Library.List_Lexorder" "HOL-Library.Sublist"
begin

section \<open>Strings of the source language\<close>

text \<open>
  The terminal core (\<^verbatim>\<open>src/composables/useTerminal.ts\<close>) is TypeScript. A string there is
  a finite sequence of UTF-16 code units; \<^verbatim>\<open>startsWith\<close>, \<^verbatim>\<open>split\<close>, \<^verbatim>\<open>===\<close>
  and the default comparison of \<^verbatim>\<open>Array.prototype.sort\<close> all work on code units.
  The order \<open>\<le>\<close> on \<open>jsstring\<close> is the lexicographic order of lists over the unsigned
  order of 16-bit words, which is the order \<^verbatim>\<open>sort()\<close> uses on strings.
\<close>

type_synonym code_unit = "16 word"
type_synonym jsstring = "code_unit list"

text \<open>An ASCII literal of the source, as code units.\<close>

definition js :: "string \<Rightarrow> jsstring" where
  "js cs = map of_char cs"

definition space :: code_unit where
  "space = 0x20"

text \<open>
  \<^verbatim>\<open>String.prototype.trim\<close> strips the code points of WhiteSpace and LineTerminator
  from both ends: TAB, LF, VT, FF, CR, SPACE, NBSP, U+1680, U+2000 to U+200A, U+2028,
  U+2029, U+202F, U+205F, U+3000 and U+FEFF. All of them are single code units.
\<close>

definition isWhiteSpace :: "code_unit \<Rightarrow> bool" where
  "isWhiteSpace c \<longleftrightarrow>
     c = 0x09 \<or> c = 0x0A \<or> c = 0x0B \<or> c = 0x0C \<or> c = 0x0D \<or> c = 0x20 \<or> c = 0xA0 \<or>
     c = 0x1680 \<or> (0x2000 \<le> c \<and> c \<le> 0x200A) \<or> c = 0x2028 \<or> c = 0x2029 \<or>
     c = 0x202F \<or> c = 0x205F \<or> c = 0x3000 \<or> c = 0xFEFF"

definition trim :: "jsstring \<Rightarrow> jsstring" where
  "trim t = rev (dropWhile isWhiteSpace (rev (dropWhile isWhiteSpace t)))"

text \<open>\<^verbatim>\<open>candidate.startsWith(t)\<close>.\<close>

definition startsWith :: "jsstring \<Rightarrow> jsstring \<Rightarrow> bool" where
  "startsWith candidate t \<longleftrightarrow> prefix t candidate"

text \<open>
  \<^verbatim>\<open>t.split(" ")\<close>: the pieces between the occurrences of one separator code unit. The
  result is never empty (\<^verbatim>\<open>"".split(" ")\<close> is \<^verbatim>\<open>[""]\<close>), and two adjacent separators
  enclose an empty piece.
\<close>

fun split :: "code_unit \<Rightarrow> jsstring \<Rightarrow> jsstring list" where
  "split sep [] = [[]]"
| "split sep (c # cs) =
     (if c = sep then [] # split sep cs
      else (case split sep cs of
              [] \<Rightarrow> [[c]]
            | piece # pieces \<Rightarrow> (c # piece) # pieces))"

text \<open>\<^verbatim>\<open>pieces.join(" ")\<close>, the inverse of \<^verbatim>\<open>split\<close>.\<close>

fun join :: "code_unit \<Rightarrow> jsstring list \<Rightarrow> jsstring" where
  "join sep [] = []"
| "join sep [piece] = piece"
| "join sep (piece # pieces) = piece @ sep # join sep pieces"

text \<open>
  \<^verbatim>\<open>xs[i]\<close> on an array: \<^verbatim>\<open>undefined\<close> (here \<open>None\<close>) outside of \<open>0 \<le> i < length\<close>,
  in particular at the index \<open>-1\<close>.
\<close>

definition at :: "'a list \<Rightarrow> int \<Rightarrow> 'a option" where
  "at xs i = (if 0 \<le> i \<and> i < int (length xs) then Some (xs ! nat i) else None)"

section \<open>Data model\<close>

text \<open>
  What a handler does is seen by the engine only through the \<^verbatim>\<open>CommandContext\<close> it is
  given: it may call \<^verbatim>\<open>appendOutput\<close> and \<^verbatim>\<open>clearMessages\<close>, read \<^verbatim>\<open>isHalted\<close>,
  give control back to the event loop at an \<^verbatim>\<open>await\<close> of its own, and finally return
  (or resolve its promise), throw synchronously, reject its promise, or never settle.
  A handler run is the tree of these interactions:
  \<^item> \<open>Return\<close>: the handler has returned, or the promise it returned is resolved;
  \<^item> \<open>Throw\<close>: the handler has thrown (before any \<^verbatim>\<open>await\<close>: synchronously);
  \<^item> \<open>Reject\<close>: the promise it returned is rejected;
  \<^item> \<open>Pending\<close>: the promise it returned never settles;
  \<^item> \<open>AppendOutput t options h\<close>: it calls \<^verbatim>\<open>context.appendOutput(t, options)\<close> and goes
    on as \<open>h\<close>;
  \<^item> \<open>ClearMessages h\<close>: it calls \<^verbatim>\<open>context.clearMessages()\<close> and goes on as \<open>h\<close>;
  \<^item> \<open>IsHalted h1 h2\<close>: it reads \<^verbatim>\<open>context.isHalted.value\<close> and goes on as \<open>h1\<close> when
    the flag is up, as \<open>h2\<close> when it is not;
  \<^item> \<open>Await h\<close>: it gives control back to the event loop and goes on as \<open>h\<close> when it is
    resumed.
\<close>

datatype handler_run =
    Return
  | Throw
  | Reject
  | Pending
  | AppendOutput jsstring "bool option" handler_run
  | ClearMessages handler_run
  | IsHalted handler_run handler_run
  | Await handler_run

record CommandDefinition =
  name :: jsstring
  description :: jsstring
  availableArguments :: "jsstring list option"
  handler :: "jsstring list \<Rightarrow> handler_run"

datatype message_type = Input | Output

record TerminalMessage =
  type :: message_type
  "text" :: jsstring
  isHtml :: bool

text \<open>The reactive references that \<^verbatim>\<open>useTerminal\<close> creates.\<close>

record session =
  inputText :: jsstring
  messages :: "TerminalMessage list"
  historyEntries :: "jsstring list"
  historyIndex :: int
  isRunning :: bool
  isHalted :: bool

section \<open>Suggestions\<close>

text \<open>The computed \<^verbatim>\<open>suggestions\<close>: the flat-mapped candidates, sorted.\<close>

definition candidates :: "CommandDefinition \<Rightarrow> jsstring list" where
  "candidates command =
     name command #
     (case availableArguments command of
        None \<Rightarrow> []
      | Some arguments \<Rightarrow> map (\<lambda>argument. name command @ space # argument) arguments)"

definition suggestions :: "CommandDefinition list \<Rightarrow> jsstring list" where
  "suggestions commands = sort (concat (map candidates commands))"

text \<open>
  The computed \<^verbatim>\<open>suggestion\<close>. \<^verbatim>\<open>!command\<close> holds of \<^verbatim>\<open>undefined\<close> (nothing found)
  and of the empty string.
\<close>

definition suggestion :: "CommandDefinition list \<Rightarrow> session \<Rightarrow> jsstring" where
  "suggestion commands s =
     (let t = trim (inputText s) in
      if t = [] then []
      else (case find (\<lambda>command. startsWith command t) (suggestions commands) of
              None \<Rightarrow> []
            | Some command \<Rightarrow> if command = [] then [] else command))"

text \<open>
  The vocabulary in the words of the specification: the bare name of every command, and
  \<open>name\<close>, a space and the argument for every entry of its \<^verbatim>\<open>availableArguments\<close>.
\<close>

definition vocabulary :: "CommandDefinition list \<Rightarrow> jsstring set" where
  "vocabulary commands =
     (\<Union>command \<in> set commands.
        {name command} \<union>
        (case availableArguments command of
           None \<Rightarrow> {}
         | Some arguments \<Rightarrow> {name command @ [space] @ argument | argument. argument \<in> set arguments}))"

section \<open>The transcript\<close>

text \<open>
  \<^verbatim>\<open>appendMessage\<close> stores a new array whose last element is the new message. The
  \<^verbatim>\<open>watch\<close> on \<^verbatim>\<open>messages\<close> only calls \<^verbatim>\<open>props.onOutputAppended\<close>, which the
  presentation layer supplies and which has no part in the session; it is left out.
\<close>

definition appendMessage :: "jsstring \<Rightarrow> message_type \<Rightarrow> bool \<Rightarrow> session \<Rightarrow> session" where
  "appendMessage t ty html s =
     s\<lparr>messages := messages s @ [\<lparr>type = ty, text = t, isHtml = html\<rparr>]\<rparr>"

text \<open>
  The two mutators of the \<^verbatim>\<open>CommandContext\<close>. The options of \<^verbatim>\<open>appendOutput\<close> are
  optional, and so is their \<^verbatim>\<open>isHtml\<close>: \<^verbatim>\<open>options?.isHtml ?? false\<close>.
\<close>

definition appendOutput :: "jsstring \<Rightarrow> bool option \<Rightarrow> session \<Rightarrow> session" where
  "appendOutput t options s =
     appendMessage t Output (case options of None \<Rightarrow> False | Some html \<Rightarrow> html) s"

definition clearMessages :: "session \<Rightarrow> session" where
  "clearMessages s = s\<lparr>messages := []\<rparr>"

section \<open>Input and history navigation\<close>

definition setInput :: "jsstring \<Rightarrow> session \<Rightarrow> session" where
  "setInput input s = s\<lparr>inputText := input\<rparr>"

definition autocompleteSuggestion :: "CommandDefinition list \<Rightarrow> session \<Rightarrow> session" where
  "autocompleteSuggestion commands s =
     (if suggestion commands s \<noteq> [] then s\<lparr>inputText := suggestion commands s\<rparr> else s)"

definition navigateToPreviousEntry :: "session \<Rightarrow> session" where
  "navigateToPreviousEntry s =
     (if historyIndex s < int (length (historyEntries s)) - 1
      then s\<lparr>historyIndex := historyIndex s + 1\<rparr> else s)"

definition navigateToNextEntry :: "session \<Rightarrow> session" where
  "navigateToNextEntry s =
     (if historyIndex s > - 1 then s\<lparr>historyIndex := historyIndex s - 1\<rparr> else s)"

text \<open>
  The body of the \<^verbatim>\<open>watchEffect\<close>:
  \<^verbatim>\<open>inputText.value = historyEntries.value[historyIndex.value] ?? ""\<close>.
\<close>

definition watchEffect :: "session \<Rightarrow> session" where
  "watchEffect s =
     s\<lparr>inputText := (case at (historyEntries s) (historyIndex s) of
                        None \<Rightarrow> []
                      | Some entry \<Rightarrow> entry)\<rparr>"

section \<open>Halting\<close>

definition haltExecution :: "session \<Rightarrow> session" where
  "haltExecution s =
     (let s1 = s\<lparr>isHalted := True\<rparr> in
      if \<not> isRunning s1 then appendMessage [] Input False s1 else s1)"

section \<open>Running a handler\<close>

text \<open>
  The synchronous part of a handler run: the calls on the context take effect one after
  the other, until the handler settles or suspends. What is left of the run is returned
  with the session.
\<close>

fun run_handler :: "handler_run \<Rightarrow> session \<Rightarrow> session \<times> handler_run" where
  "run_handler (AppendOutput t options h) s = run_handler h (appendOutput t options s)"
| "run_handler (ClearMessages h) s = run_handler h (clearMessages s)"
| "run_handler (IsHalted h1 h2) s = (if isHalted s then run_handler h1 s else run_handler h2 s)"
| "run_handler h s = (s, h)"

section \<open>Execution\<close>

text \<open>
  \<^verbatim>\<open>const [command, ...args] = text.split(" ")\<close>. The split of a string is never empty;
  the first case only makes the function total.
\<close>

definition parseInput :: "jsstring \<Rightarrow> jsstring \<times> jsstring list" where
  "parseInput t = (case split space t of [] \<Rightarrow> ([], []) | command # args \<Rightarrow> (command, args))"

text \<open>
  \<^verbatim>\<open>execute\<close> is an \<^verbatim>\<open>async\<close> function: it runs up to its \<^verbatim>\<open>await\<close>, and its
  \<^verbatim>\<open>finally\<close> block runs when the awaited handler has settled. A configuration holds,
  beside the session, the handler invocations whose \<^verbatim>\<open>execute\<close> is suspended at the
  \<^verbatim>\<open>await\<close> (\<open>inflight\<close>: what is left of each run), and a log of the handler calls made
  so far (\<open>invoked\<close>: the name of the command and the arguments passed), which the source
  does not keep and which serves to state what was called with what.
\<close>

record config =
  state :: session
  inflight :: "handler_run list"
  invoked :: "(jsstring \<times> jsstring list) list"

text \<open>
  \<^verbatim>\<open>try { ...; await commandDefinition.handler(args, context) } finally { isRunning.value = false }\<close>:
  a handler that throws synchronously reaches the \<^verbatim>\<open>finally\<close> block at once; every other
  run leaves \<^verbatim>\<open>execute\<close> suspended at the \<^verbatim>\<open>await\<close>, also the run of a handler that has
  already returned.
\<close>

definition invoke :: "CommandDefinition \<Rightarrow> jsstring list \<Rightarrow> config \<Rightarrow> config" where
  "invoke commandDefinition args c =
     (let (s, h) = run_handler (handler commandDefinition args) (state c);
          c1 = c\<lparr>invoked := invoked c @ [(name commandDefinition, args)]\<rparr>
      in if h = Throw then c1\<lparr>state := s\<lparr>isRunning := False\<rparr>\<rparr>
         else c1\<lparr>state := s, inflight := inflight c @ [h]\<rparr>)"

definition execute :: "CommandDefinition list \<Rightarrow> config \<Rightarrow> config" where
  "execute commands c =
     (if isRunning (state c) then c
      else
        let input = trim (inputText (state c));
            s1 = appendMessage input Input False (state c);
            s2 = s1\<lparr>inputText := []\<rparr>
        in if input = [] then c\<lparr>state := s2\<rparr>
           else
             let s3 = (if at (historyEntries s2) 0 \<noteq> Some input
                       then s2\<lparr>historyEntries := input # historyEntries s2\<rparr> else s2);
                 s4 = s3\<lparr>historyIndex := - 1\<rparr>;
                 (command, args) = parseInput input
             in (case find (\<lambda>commandDefinition. name commandDefinition = command) commands of
                   None \<Rightarrow>
                     c\<lparr>state := appendOutput (js ''sh: command not found: '' @ command)
                                  (Some False) s4\<rparr>
                 | Some commandDefinition \<Rightarrow>
                     invoke commandDefinition args
                       (c\<lparr>state := s4\<lparr>isRunning := True, isHalted := False\<rparr>\<rparr>)))"

text \<open>
  The event loop gives control back to the suspended invocation number \<open>i\<close>. A settled
  handler lets \<^verbatim>\<open>execute\<close> run its \<^verbatim>\<open>finally\<close> block and end; a handler waiting at an
  \<^verbatim>\<open>await\<close> of its own runs on to its next suspension; a handler that never settles stays.
\<close>

definition settled :: "handler_run \<Rightarrow> bool" where
  "settled h \<longleftrightarrow> h = Return \<or> h = Throw \<or> h = Reject"

definition resume :: "nat \<Rightarrow> config \<Rightarrow> config" where
  "resume i c =
     (if i < length (inflight c) then
        (let h = inflight c ! i in
         if settled h
         then c\<lparr>state := (state c)\<lparr>isRunning := False\<rparr>,
                inflight := take i (inflight c) @ drop (Suc i) (inflight c)\<rparr>
         else (case h of
                 Await h' \<Rightarrow>
                   (let (s, h'') = run_handler h' (state c)
                    in c\<lparr>state := s, inflight := (inflight c)[i := h'']\<rparr>)
               | _ \<Rightarrow> c))
      else c)"

text \<open>
  The forms in which a handler run can be suspended, and a bound on the number of times
  a run gives control back before it settles.
\<close>

definition suspended :: "handler_run \<Rightarrow> bool" where
  "suspended h \<longleftrightarrow> settled h \<or> h = Pending \<or> (case h of Await h' \<Rightarrow> True | _ \<Rightarrow> False)"

fun awaits :: "handler_run \<Rightarrow> nat" where
  "awaits (AppendOutput t options h) = awaits h"
| "awaits (ClearMessages h) = awaits h"
| "awaits (IsHalted h1 h2) = max (awaits h1) (awaits h2)"
| "awaits (Await h) = Suc (awaits h)"
| "awaits h = 0"

section \<open>Sessions as runs of events\<close>

text \<open>
  Each call of the presentation layer on the terminal, and each resumption of a suspended
  handler, is one task of the event loop. The \<^verbatim>\<open>watchEffect\<close> is flushed before the next
  task when one of the references it reads, \<^verbatim>\<open>historyEntries\<close> or \<^verbatim>\<open>historyIndex\<close>,
  was given another value.
\<close>

datatype event =
    SetInput jsstring
  | AutocompleteSuggestion
  | NavigateToPreviousEntry
  | NavigateToNextEntry
  | Execute
  | HaltExecution
  | Resume nat

fun perform :: "CommandDefinition list \<Rightarrow> event \<Rightarrow> config \<Rightarrow> config" where
  "perform commands (SetInput input) c = c\<lparr>state := setInput input (state c)\<rparr>"
| "perform commands AutocompleteSuggestion c = c\<lparr>state := autocompleteSuggestion commands (state c)\<rparr>"
| "perform commands NavigateToPreviousEntry c = c\<lparr>state := navigateToPreviousEntry (state c)\<rparr>"
| "perform commands NavigateToNextEntry c = c\<lparr>state := navigateToNextEntry (state c)\<rparr>"
| "perform commands Execute c = execute commands c"
| "perform commands HaltExecution c = c\<lparr>state := haltExecution (state c)\<rparr>"
| "perform commands (Resume i) c = resume i c"

definition flush :: "session \<Rightarrow> session \<Rightarrow> session" where
  "flush old s =
     (if historyEntries s \<noteq> historyEntries old \<or> historyIndex s \<noteq> historyIndex old
      then watchEffect s else s)"

definition step :: "CommandDefinition list \<Rightarrow> event \<Rightarrow> config \<Rightarrow> config" where
  "step commands e c =
     (let c' = perform commands e c in c'\<lparr>state := flush (state c) (state c')\<rparr>)"

definition run :: "CommandDefinition list \<Rightarrow> event list \<Rightarrow> config \<Rightarrow> config" where
  "run commands events c = foldl (\<lambda>c e. step commands e c) c events"

text \<open>The session that \<^verbatim>\<open>useTerminal\<close> returns.\<close>

definition useTerminal :: config where
  "useTerminal =
     \<lparr>state = \<lparr>inputText = [], messages = [], historyEntries = [], historyIndex = - 1,
               isRunning = False, isHalted = False\<rparr>,
      inflight = [], invoked = []\<rparr>"

section \<open>Sample commands and sessions\<close>

text \<open>
  Concrete inputs for the examples below. \<open>abc\<close> is the command of the repository's
  tests (\<^verbatim>\<open>handler() {}\<close>) and \<open>echo\<close> the one of \<^verbatim>\<open>src/composables/commands.ts\<close>
  (\<^verbatim>\<open>context.appendOutput(values.join(" "))\<close>). \<open>fetch\<close> is a sample of an asynchronous
  handler: it waits once, then rejects when it was halted and prints a line otherwise;
  \<open>crash\<close> is a sample of a handler that prints a line and throws synchronously.
\<close>

definition abc :: CommandDefinition where
  "abc = \<lparr>name = js ''abc'', description = [], availableArguments = None,
          handler = (\<lambda>args. Return)\<rparr>"

definition echo :: CommandDefinition where
  "echo = \<lparr>name = js ''echo'', description = js ''write arguments to the standard output'',
           availableArguments = None,
           handler = (\<lambda>values. AppendOutput (join space values) None Return)\<rparr>"

definition fetch :: CommandDefinition where
  "fetch = \<lparr>name = js ''fetch'', description = [],
            availableArguments = Some [js ''fast'', js ''slow''],
            handler = (\<lambda>args. Await (IsHalted Reject (AppendOutput (js ''done'') None Return)))\<rparr>"

definition crash :: CommandDefinition where
  "crash = \<lparr>name = js ''crash'', description = [], availableArguments = None,
            handler = (\<lambda>args. AppendOutput (js ''oh'') (Some True) Throw)\<rparr>"

definition sample_commands :: "CommandDefinition list" where
  "sample_commands = [echo, fetch, abc, crash]"

text \<open>A session in which \<open>fetch\<close> is in flight and the user has typed the next line.\<close>

definition busy :: config where
  "busy = run sample_commands
            [SetInput (js ''fetch slow''), Execute, SetInput (js ''zzz'')] useTerminal"

text \<open>A session in which \<open>fetch\<close> is in flight and the user has typed an \<open>echo\<close> line.\<close>

definition busy_echo :: config where
  "busy_echo = run sample_commands
     [SetInput (js ''fetch slow''), Execute, SetInput (js ''echo a b'')] useTerminal"

text \<open>
  Two sessions of a user who has submitted \<open>abc\<close>, seen it end, and pressed the up arrow:
  in the first the recalled line is still in the input, in the second the user has
  replaced it by a single space.
\<close>

definition browsing_abc :: config where
  "browsing_abc = run sample_commands
     [SetInput (js ''abc''), Execute, Resume 0, NavigateToPreviousEntry] useTerminal"

definition browsing :: config where
  "browsing = run sample_commands
     [SetInput (js ''abc''), Execute, Resume 0, NavigateToPreviousEntry, SetInput (js '' '')]
     useTerminal"

text \<open>Sessions in which a line has been typed and not yet submitted.\<close>

definition typed_zzz :: config where
  "typed_zzz = run sample_commands [SetInput (js '' zzz a'')] useTerminal"

definition typed_echo :: config where
  "typed_echo = run sample_commands [SetInput (js ''echo a b'')] useTerminal"

definition typed_fetch :: config where
  "typed_fetch = run sample_commands [SetInput (js ''fetch slow'')] useTerminal"

text \<open>
  A session in which \<open>fetch\<close> was halted while it waited and has then rejected; the
  \<^verbatim>\<open>finally\<close> block of \<^verbatim>\<open>execute\<close> has not run yet.
\<close>

definition rejected :: config where
  "rejected = run sample_commands
     [SetInput (js ''fetch slow''), Execute, HaltExecution, Resume 0] useTerminal"

text \<open>
  The commands of the tests that the repository has for \<^verbatim>\<open>useTerminal\<close>: \<open>abc\<close> above and
  \<open>dfg\<close> do nothing, \<open>hello\<close> is the \<open>abc\<close> of the test that prints \<open>hello world\<close>. An
  \<^verbatim>\<open>await execute()\<close> of a test is the event \<open>Execute\<close> followed by the resumption that
  ends the call. \<open>submitted_twice\<close> is the session after the two submissions with which
  the history tests begin.
\<close>

definition dfg :: CommandDefinition where
  "dfg = \<lparr>name = js ''dfg'', description = [], availableArguments = None,
          handler = (\<lambda>args. Return)\<rparr>"

definition hello :: CommandDefinition where
  "hello = \<lparr>name = js ''abc'', description = [], availableArguments = None,
            handler = (\<lambda>args. AppendOutput (js ''hello world'') None Return)\<rparr>"

definition submitted_twice :: config where
  "submitted_twice = run [abc]
     [SetInput (js ''abc a''), Execute, Resume 0, SetInput (js ''abc b''), Execute, Resume 0]
     useTerminal"

lemmas evals = run_def step_def flush_def watchEffect_def execute_def invoke_def resume_def
  settled_def useTerminal_def parseInput_def trim_def isWhiteSpace_def js_def space_def
  setInput_def appendMessage_def appendOutput_def clearMessages_def at_def Let_def
  navigateToPreviousEntry_def navigateToNextEntry_def haltExecution_def
  abc_def echo_def fetch_def crash_def sample_commands_def

lemma busy_eq:
  "busy =
     \<lparr>state = \<lparr>inputText = js ''zzz'',
               messages = [\<lparr>type = Input, text = js ''fetch slow'', isHtml = False\<rparr>],
               historyEntries = [js ''fetch slow''], historyIndex = - 1,
               isRunning = True, isHalted = False\<rparr>,
      inflight = [Await (IsHalted Reject (AppendOutput (js ''done'') None Return))],
      invoked = [(js ''fetch'', [js ''slow''])]\<rparr>"
  unfolding busy_def by (simp add: evals)

section \<open>The repository's tests, replayed\<close>

lemma submitted_twice_eq:
  "submitted_twice =
     \<lparr>state = \<lparr>inputText = [],
               messages = [\<lparr>type = Input, text = js ''abc a'', isHtml = False\<rparr>,
                           \<lparr>type = Input, text = js ''abc b'', isHtml = False\<rparr>],
               historyEntries = [js ''abc b'', js ''abc a''], historyIndex = - 1,
               isRunning = False, isHalted = False\<rparr>,
      inflight = [],
      invoked = [(js ''abc'', [js ''a'']), (js ''abc'', [js ''b''])]\<rparr>"
  unfolding submitted_twice_def by (simp add: evals)

lemma test_suggests_commands:
  "suggestion [abc, dfg] (setInput (js ''a'') (state useTerminal)) = js ''abc'' \<and>
   suggestion [abc, dfg] (setInput (js ''d'') (state useTerminal)) = js ''dfg'' \<and>
   suggestion [abc, dfg] (setInput [] (state useTerminal)) = []"
  by (simp add: suggestion_def suggestions_def candidates_def startsWith_def dfg_def evals)

lemma test_appends_input_commands_to_the_message_list:
  "messages (state (run [hello] [SetInput (js ''abc''), Execute, Resume 0] useTerminal)) =
     [\<lparr>type = Input, text = js ''abc'', isHtml = False\<rparr>,
      \<lparr>type = Output, text = js ''hello world'', isHtml = False\<rparr>]"
  by (simp add: hello_def evals)

lemma test_navigates_through_input_history:
  "inputText (state submitted_twice) = [] \<and>
   inputText (state (run [abc] [NavigateToPreviousEntry] submitted_twice)) = js ''abc b'' \<and>
   inputText (state (run [abc] [NavigateToPreviousEntry, NavigateToPreviousEntry]
                       submitted_twice)) = js ''abc a'' \<and>
   inputText (state (run [abc] [NavigateToPreviousEntry, NavigateToPreviousEntry,
                                NavigateToPreviousEntry] submitted_twice)) = js ''abc a'' \<and>
   inputText (state (run [abc] [NavigateToPreviousEntry, NavigateToPreviousEntry,
                                NavigateToNextEntry] submitted_twice)) = js ''abc b'' \<and>
   inputText (state (run [abc] [NavigateToPreviousEntry, NavigateToPreviousEntry,
                                NavigateToNextEntry, NavigateToNextEntry]
                       submitted_twice)) = [] \<and>
   inputText (state (run [abc] [NavigateToPreviousEntry, NavigateToPreviousEntry,
                                NavigateToNextEntry, NavigateToNextEntry, NavigateToNextEntry]
                       submitted_twice)) = []"
  by (simp add: submitted_twice_eq evals)

lemma test_history_navigation_resets_when_commands_are_executed:
  "inputText (state (run [abc]
     [NavigateToPreviousEntry, SetInput (js ''abc c''), Execute, Resume 0,
      NavigateToPreviousEntry] submitted_twice)) = js ''abc c''"
  by (simp add: submitted_twice_eq evals)

lemma test_history_skips_continuous_duplicated_entries:
  "historyEntries (state (run [abc] [SetInput (js ''abc b''), Execute, Resume 0]
                            submitted_twice)) = [js ''abc b'', js ''abc a'']"
  by (simp add: submitted_twice_eq evals)

section \<open>What a handler can and cannot change\<close>

text \<open>
  A handler holds the context only: its run leaves the input, the history and the
  running flag alone.
\<close>

lemma run_handler_frame:
  "run_handler h s = (s', h') \<Longrightarrow>
     inputText s' = inputText s \<and> historyEntries s' = historyEntries s \<and>
     historyIndex s' = historyIndex s \<and> isRunning s' = isRunning s"
  by (induction h s rule: run_handler.induct)
     (auto simp: appendOutput_def appendMessage_def clearMessages_def split: if_splits)

lemma invoke_frame:
  "inputText (state (invoke cd args c)) = inputText (state c) \<and>
   historyEntries (state (invoke cd args c)) = historyEntries (state c) \<and>
   historyIndex (state (invoke cd args c)) = historyIndex (state c)"
  by (auto simp: invoke_def Let_def split: prod.splits dest: run_handler_frame)

lemma resume_frame:
  "inputText (state (resume i c)) = inputText (state c) \<and>
   historyEntries (state (resume i c)) = historyEntries (state c) \<and>
   historyIndex (state (resume i c)) = historyIndex (state c)"
  by (auto simp: resume_def Let_def split: prod.splits handler_run.splits
           dest: run_handler_frame)

section \<open>The history after a submission\<close>

lemma execute_historyEntries:
  "historyEntries (state (execute commands c)) =
     (if \<not> isRunning (state c) \<and> trim (inputText (state c)) \<noteq> [] \<and>
         at (historyEntries (state c)) 0 \<noteq> Some (trim (inputText (state c)))
      then trim (inputText (state c)) # historyEntries (state c)
      else historyEntries (state c))"
  by (simp add: execute_def Let_def invoke_frame appendMessage_def appendOutput_def
           split: prod.splits option.splits)

lemma execute_historyIndex:
  "historyIndex (state (execute commands c)) =
     (if isRunning (state c) \<or> trim (inputText (state c)) = []
      then historyIndex (state c) else - 1)"
  by (simp add: execute_def Let_def invoke_frame appendMessage_def appendOutput_def
           split: prod.splits option.splits)

lemma execute_inputText:
  "inputText (state (execute commands c)) =
     (if isRunning (state c) then inputText (state c) else [])"
  by (simp add: execute_def Let_def invoke_frame appendMessage_def appendOutput_def
           split: prod.splits option.splits)

section \<open>Steps and runs\<close>

lemma flush_fields:
  "historyEntries (flush old s) = historyEntries s"
  "historyIndex (flush old s) = historyIndex s"
  "messages (flush old s) = messages s"
  "isRunning (flush old s) = isRunning s"
  "isHalted (flush old s) = isHalted s"
  by (simp_all add: flush_def watchEffect_def)

lemma step_fields:
  "historyEntries (state (step commands e c)) = historyEntries (state (perform commands e c))"
  "historyIndex (state (step commands e c)) = historyIndex (state (perform commands e c))"
  "messages (state (step commands e c)) = messages (state (perform commands e c))"
  "isRunning (state (step commands e c)) = isRunning (state (perform commands e c))"
  "isHalted (state (step commands e c)) = isHalted (state (perform commands e c))"
  "inflight (step commands e c) = inflight (perform commands e c)"
  "invoked (step commands e c) = invoked (perform commands e c)"
  by (simp_all add: step_def Let_def flush_fields)

lemma run_Nil: "run commands [] c = c"
  by (simp add: run_def)

lemma run_Cons: "run commands (e # events) c = run commands events (step commands e c)"
  by (simp add: run_def)

lemma run_snoc: "run commands (events @ [e]) c = step commands e (run commands events c)"
  by (simp add: run_def)

section \<open>Invariants of the history\<close>

lemma at_0: "at xs 0 = (case xs of [] \<Rightarrow> None | x # _ \<Rightarrow> Some x)"
  by (cases xs) (simp_all add: at_def)

lemma perform_history_inv:
  assumes "- 1 \<le> historyIndex (state c)"
      and "historyIndex (state c) \<le> int (length (historyEntries (state c))) - 1"
      and "distinct_adj (historyEntries (state c))"
  shows "- 1 \<le> historyIndex (state (perform commands e c)) \<and>
         historyIndex (state (perform commands e c))
           \<le> int (length (historyEntries (state (perform commands e c)))) - 1 \<and>
         distinct_adj (historyEntries (state (perform commands e c)))"
proof (cases e)
  case Execute
  show ?thesis
    using assms unfolding Execute
    by (cases "historyEntries (state c)")
       (auto simp: execute_historyEntries execute_historyIndex at_0)
next
  case (Resume i)
  then show ?thesis using assms by (simp add: resume_frame)
qed (use assms in \<open>auto simp: setInput_def autocompleteSuggestion_def navigateToPreviousEntry_def
      navigateToNextEntry_def haltExecution_def appendMessage_def Let_def\<close>)

lemma run_history_inv:
  assumes "- 1 \<le> historyIndex (state c)"
      and "historyIndex (state c) \<le> int (length (historyEntries (state c))) - 1"
      and "distinct_adj (historyEntries (state c))"
  shows "- 1 \<le> historyIndex (state (run commands events c)) \<and>
         historyIndex (state (run commands events c))
           \<le> int (length (historyEntries (state (run commands events c)))) - 1 \<and>
         distinct_adj (historyEntries (state (run commands events c)))"
  using assms
proof (induction events arbitrary: c)
  case Nil
  then show ?case by (simp add: run_Nil)
next
  case (Cons e events)
  have "- 1 \<le> historyIndex (state (step commands e c)) \<and>
        historyIndex (state (step commands e c))
          \<le> int (length (historyEntries (state (step commands e c)))) - 1 \<and>
        distinct_adj (historyEntries (state (step commands e c)))"
    using perform_history_inv [OF Cons.prems] by (simp add: step_fields)
  then show ?case
    using Cons.IH [of "step commands e c"] by (simp add: run_Cons)
qed

section \<open>Invariants of the running flag\<close>

lemma invoke_flight:
  assumes "isRunning (state c)"
  shows "(inflight (invoke cd args c) = inflight c \<and> \<not> isRunning (state (invoke cd args c))) \<or>
         ((\<exists>h. inflight (invoke cd args c) = inflight c @ [h]) \<and> isRunning (state (invoke cd args c)))"
  using assms by (auto simp: invoke_def Let_def split: prod.splits dest: run_handler_frame)

lemma execute_flight_inv:
  assumes "length (inflight c) \<le> 1"
      and "isRunning (state c) \<longleftrightarrow> inflight c \<noteq> []"
  shows "length (inflight (execute commands c)) \<le> 1 \<and>
         (isRunning (state (execute commands c)) \<longleftrightarrow> inflight (execute commands c) \<noteq> [])"
proof (cases "isRunning (state c)")
  case True
  then show ?thesis using assms by (simp add: execute_def)
next
  case False
  with assms have empty: "inflight c = []" by simp
  show ?thesis
  proof (cases "trim (inputText (state c)) = []")
    case True
    then show ?thesis using False empty by (simp add: execute_def Let_def appendMessage_def)
  next
    case nonblank: False
    obtain command args where p: "parseInput (trim (inputText (state c))) = (command, args)"
      by (cases "parseInput (trim (inputText (state c)))")
    show ?thesis
    proof (cases "find (\<lambda>commandDefinition. name commandDefinition = command) commands")
      case None
      then show ?thesis using False empty nonblank p
        by (simp add: execute_def Let_def appendMessage_def appendOutput_def)
    next
      case (Some cd)
      let ?c0 = "c\<lparr>state := (if at (historyEntries (state c)) 0 \<noteq> Some (trim (inputText (state c)))
                            then (appendMessage (trim (inputText (state c))) Input False (state c))
                                   \<lparr>inputText := [], historyEntries := trim (inputText (state c)) # historyEntries (state c)\<rparr>
                            else (appendMessage (trim (inputText (state c))) Input False (state c))\<lparr>inputText := []\<rparr>)
                       \<lparr>historyIndex := - 1, isRunning := True, isHalted := False\<rparr>\<rparr>"
      have e: "execute commands c = invoke cd args ?c0"
        using False nonblank p Some
        by (simp add: execute_def Let_def appendMessage_def)
      have "isRunning (state ?c0)" "inflight ?c0 = []" using empty by simp_all
      then show ?thesis using invoke_flight [of ?c0 cd args] unfolding e by auto
    qed
  qed
qed

lemma resume_flight_inv:
  assumes "length (inflight c) \<le> 1"
      and "isRunning (state c) \<longleftrightarrow> inflight c \<noteq> []"
  shows "length (inflight (resume i c)) \<le> 1 \<and>
         (isRunning (state (resume i c)) \<longleftrightarrow> inflight (resume i c) \<noteq> [])"
proof (cases "i < length (inflight c)")
  case False
  then show ?thesis using assms by (simp add: resume_def)
next
  case True
  with assms obtain h where h: "inflight c = [h]" "i = 0"
    by (cases "inflight c") auto
  show ?thesis
    using assms h
    by (auto simp: resume_def Let_def split: prod.splits handler_run.splits dest: run_handler_frame)
qed

lemma perform_flight_inv:
  assumes "length (inflight c) \<le> 1"
      and "isRunning (state c) \<longleftrightarrow> inflight c \<noteq> []"
  shows "length (inflight (perform commands e c)) \<le> 1 \<and>
         (isRunning (state (perform commands e c)) \<longleftrightarrow> inflight (perform commands e c) \<noteq> [])"
proof (cases e)
  case Execute
  then show ?thesis using execute_flight_inv [OF assms] by simp
next
  case (Resume i)
  then show ?thesis using resume_flight_inv [OF assms] by simp
qed (use assms in \<open>auto simp: setInput_def autocompleteSuggestion_def navigateToPreviousEntry_def
      navigateToNextEntry_def haltExecution_def appendMessage_def Let_def\<close>)

lemma run_flight_inv:
  assumes "length (inflight c) \<le> 1"
      and "isRunning (state c) \<longleftrightarrow> inflight c \<noteq> []"
  shows "length (inflight (run commands events c)) \<le> 1 \<and>
         (isRunning (state (run commands events c)) \<longleftrightarrow> inflight (run commands events c) \<noteq> [])"
  using assms
proof (induction events arbitrary: c)
  case Nil
  then show ?case by (simp add: run_Nil)
next
  case (Cons e events)
  have "length (inflight (step commands e c)) \<le> 1 \<and>
        (isRunning (state (step commands e c)) \<longleftrightarrow> inflight (step commands e c) \<noteq> [])"
    using perform_flight_inv [OF Cons.prems] by (simp add: step_fields)
  then show ?case
    using Cons.IH [of "step commands e c"] by (simp add: run_Cons)
qed

section \<open>Single flight\<close>

text \<open>
  C1. While \<open>isRunning\<close> is true a call of \<^verbatim>\<open>execute\<close> changes nothing: the session, the
  invocations in flight and the log of handler calls are what they were, also after the
  flush of the effect. Hence no session that starts from \<^verbatim>\<open>useTerminal\<close> ever has more
  than one handler invocation in flight, whatever the commands and the events.
\<close>

theorem execute_single_flight:
  "(isRunning (state c) \<longrightarrow> execute commands c = c \<and> step commands Execute c = c) \<and>
   length (inflight (run commands events useTerminal)) \<le> 1"
proof -
  have "length (inflight (run commands events useTerminal)) \<le> 1"
    using run_flight_inv [of useTerminal commands events] by (simp add: useTerminal_def)
  then show ?thesis
    by (simp add: execute_def step_def flush_def)
qed

theorem execute_single_flight_witness:
  "isRunning (state busy) \<and> execute sample_commands busy = busy \<and>
   step sample_commands Execute busy = busy"
  using execute_single_flight [of busy sample_commands "[]"] by (simp add: busy_eq)

section \<open>History navigation\<close>

text \<open>
  C6. \<^verbatim>\<open>navigateToPreviousEntry\<close> adds one to \<open>historyIndex\<close> exactly when it is below
  \<open>length - 1\<close>, \<^verbatim>\<open>navigateToNextEntry\<close> subtracts one exactly when it is above \<open>-1\<close>, and
  both leave it alone otherwise; in every session that starts from \<^verbatim>\<open>useTerminal\<close> the
  index stays between \<open>-1\<close> and \<open>length - 1\<close>.
\<close>

theorem history_navigation_clamps:
  "historyIndex (navigateToPreviousEntry s) =
     (if historyIndex s < int (length (historyEntries s)) - 1
      then historyIndex s + 1 else historyIndex s) \<and>
   historyIndex (navigateToNextEntry s) =
     (if historyIndex s > - 1 then historyIndex s - 1 else historyIndex s) \<and>
   - 1 \<le> historyIndex (state (run commands events useTerminal)) \<and>
   historyIndex (state (run commands events useTerminal))
     \<le> int (length (historyEntries (state (run commands events useTerminal)))) - 1"
  using run_history_inv [of useTerminal commands events]
  by (simp add: navigateToPreviousEntry_def navigateToNextEntry_def useTerminal_def)

theorem history_navigation_clamps_witness:
  "historyIndex (navigateToPreviousEntry (state busy)) = 0 \<and>
   historyIndex (navigateToPreviousEntry (navigateToPreviousEntry (state busy))) = 0 \<and>
   historyIndex (navigateToNextEntry (state busy)) = - 1"
  using history_navigation_clamps [of "state busy" sample_commands "[]"]
        history_navigation_clamps [of "navigateToPreviousEntry (state busy)" sample_commands "[]"]
  by (simp add: busy_eq navigateToPreviousEntry_def)

text \<open>
  C10. Neither navigation function touches the history entries, the transcript or the two
  flags (nor, by itself, the input); the step that performs one of them and flushes the
  effect changes nothing but \<open>historyIndex\<close> and \<open>inputText\<close>.
\<close>

theorem navigation_frame:
  "historyEntries (navigateToPreviousEntry s) = historyEntries s \<and>
   messages (navigateToPreviousEntry s) = messages s \<and>
   isRunning (navigateToPreviousEntry s) = isRunning s \<and>
   isHalted (navigateToPreviousEntry s) = isHalted s \<and>
   inputText (navigateToPreviousEntry s) = inputText s \<and>
   historyEntries (navigateToNextEntry s) = historyEntries s \<and>
   messages (navigateToNextEntry s) = messages s \<and>
   isRunning (navigateToNextEntry s) = isRunning s \<and>
   isHalted (navigateToNextEntry s) = isHalted s \<and>
   inputText (navigateToNextEntry s) = inputText s \<and>
   (\<forall>e \<in> {NavigateToPreviousEntry, NavigateToNextEntry}.
      historyEntries (state (step commands e c)) = historyEntries (state c) \<and>
      messages (state (step commands e c)) = messages (state c) \<and>
      isRunning (state (step commands e c)) = isRunning (state c) \<and>
      isHalted (state (step commands e c)) = isHalted (state c) \<and>
      inflight (step commands e c) = inflight c \<and>
      invoked (step commands e c) = invoked c)"
  by (simp add: step_fields navigateToPreviousEntry_def navigateToNextEntry_def)

theorem navigation_frame_witness:
  "step sample_commands NavigateToPreviousEntry busy =
     busy\<lparr>state := (state busy)\<lparr>historyIndex := 0, inputText := js ''fetch slow''\<rparr>\<rparr> \<and>
   messages (state (step sample_commands NavigateToPreviousEntry busy)) = messages (state busy)"
  using navigation_frame [of "state busy" sample_commands busy]
  by (simp add: busy_eq step_def flush_def watchEffect_def navigateToPreviousEntry_def at_def)

section \<open>Halting\<close>

text \<open>
  C9. \<^verbatim>\<open>haltExecution\<close> always raises \<open>isHalted\<close>. When no command is running it also
  appends one input message with the empty text, and nothing else changes; when a command
  is running, \<open>isHalted\<close> is all that changes.
\<close>

theorem haltExecution_contract:
  "isHalted (haltExecution s) \<and>
   (\<not> isRunning s \<longrightarrow>
      haltExecution s =
        s\<lparr>isHalted := True,
          messages := messages s @ [\<lparr>type = Input, text = [], isHtml = False\<rparr>]\<rparr>) \<and>
   (isRunning s \<longrightarrow> haltExecution s = s\<lparr>isHalted := True\<rparr>) \<and>
   step commands HaltExecution c = c\<lparr>state := haltExecution (state c)\<rparr>"
  by (simp add: haltExecution_def appendMessage_def Let_def step_def flush_def)

theorem haltExecution_contract_witness:
  "isRunning (state busy) \<and> \<not> isRunning (state useTerminal) \<and>
   messages (haltExecution (state busy)) = messages (state busy) \<and>
   isHalted (haltExecution (state busy)) \<and>
   messages (haltExecution (state useTerminal)) =
     [\<lparr>type = Input, text = [], isHtml = False\<rparr>] \<and>
   isHalted (haltExecution (state useTerminal))"
  using haltExecution_contract [of "state busy" sample_commands busy]
        haltExecution_contract [of "state useTerminal" sample_commands useTerminal]
  by (simp add: busy_eq useTerminal_def)

section \<open>Suggestions\<close>

lemma set_candidates:
  "set (candidates command) =
     {name command} \<union>
     (case availableArguments command of
        None \<Rightarrow> {}
      | Some arguments \<Rightarrow> {name command @ [space] @ argument | argument. argument \<in> set arguments})"
  by (auto simp: candidates_def split: option.splits)

lemma set_suggestions: "set (suggestions commands) = vocabulary commands"
  by (simp add: suggestions_def vocabulary_def set_candidates)

lemma sorted_suggestions: "sorted (suggestions commands)"
  by (simp add: suggestions_def)

lemma find_sorted_least:
  "sorted xs \<Longrightarrow> find P xs = Some x \<Longrightarrow> x \<in> set xs \<and> P x \<and> (\<forall>y \<in> set xs. P y \<longrightarrow> x \<le> y)"
proof (induction xs)
  case Nil
  then show ?case by simp
next
  case (Cons a xs)
  show ?case
  proof (cases "P a")
    case True
    with Cons.prems show ?thesis by auto
  next
    case False
    with Cons.prems have "sorted xs" "find P xs = Some x" by simp_all
    with Cons.IH have "x \<in> set xs \<and> P x \<and> (\<forall>y \<in> set xs. P y \<longrightarrow> x \<le> y)" by blast
    with False show ?thesis by auto
  qed
qed

lemma prefix_le: "prefix xs ys \<Longrightarrow> xs \<le> (ys :: jsstring)"
proof (induction xs arbitrary: ys)
  case Nil
  then show ?case by simp
next
  case (Cons x xs)
  then obtain zs where "ys = x # zs" "prefix xs zs" by (cases ys) auto
  with Cons.IH show ?case by simp
qed

text \<open>
  C3. The suggestion is the least element, in the lexicographic order of code units, of
  the vocabulary that starts with the trimmed input; it is the empty string when the
  trimmed input is empty or no candidate starts with it; and a trimmed input that is a
  candidate itself is its own suggestion.
\<close>

theorem suggestion_contract:
  "(trim (inputText s) = [] \<or> (\<forall>v \<in> vocabulary commands. \<not> startsWith v (trim (inputText s)))
      \<longrightarrow> suggestion commands s = []) \<and>
   (trim (inputText s) \<noteq> [] \<and> (\<exists>v \<in> vocabulary commands. startsWith v (trim (inputText s)))
      \<longrightarrow> suggestion commands s \<in> vocabulary commands \<and>
          startsWith (suggestion commands s) (trim (inputText s)) \<and>
          (\<forall>v \<in> vocabulary commands.
             startsWith v (trim (inputText s)) \<longrightarrow> suggestion commands s \<le> v)) \<and>
   (trim (inputText s) \<in> vocabulary commands \<longrightarrow> suggestion commands s = trim (inputText s))"
proof -
  let ?t = "trim (inputText s)"
  let ?P = "\<lambda>command. startsWith command ?t"
  have none: "suggestion commands s = []" if "?t = [] \<or> (\<forall>v \<in> vocabulary commands. \<not> ?P v)"
  proof (cases "?t = []")
    case True
    then show ?thesis by (simp add: suggestion_def Let_def)
  next
    case False
    with that have "find ?P (suggestions commands) = None"
      by (simp add: find_None_iff set_suggestions)
    then show ?thesis by (simp add: suggestion_def Let_def)
  qed
  have least: "suggestion commands s \<in> vocabulary commands \<and> ?P (suggestion commands s) \<and>
               (\<forall>v \<in> vocabulary commands. ?P v \<longrightarrow> suggestion commands s \<le> v)"
    if "?t \<noteq> []" and "\<exists>v \<in> vocabulary commands. ?P v"
  proof -
    from that(2) obtain x where x: "find ?P (suggestions commands) = Some x"
      by (cases "find ?P (suggestions commands)") (auto simp: find_None_iff set_suggestions)
    from find_sorted_least [OF sorted_suggestions x]
    have fx: "x \<in> vocabulary commands" "?P x" "\<forall>v \<in> vocabulary commands. ?P v \<longrightarrow> x \<le> v"
      by (simp_all add: set_suggestions)
    from fx(2) that(1) have "x \<noteq> []" by (auto simp: startsWith_def)
    with x that(1) have "suggestion commands s = x" by (simp add: suggestion_def Let_def)
    with fx show ?thesis by simp
  qed
  have exact: "suggestion commands s = ?t" if "?t \<in> vocabulary commands"
  proof (cases "?t = []")
    case True
    then show ?thesis using none by simp
  next
    case False
    have self: "?P ?t" by (simp add: startsWith_def)
    with that have "\<exists>v \<in> vocabulary commands. ?P v" by blast
    from least [OF False this] that self
    have "suggestion commands s \<le> ?t" "?t \<le> suggestion commands s"
      by (auto simp: startsWith_def intro: prefix_le)
    then show ?thesis by simp
  qed
  from none least exact show ?thesis by blast
qed

lemma vocabulary_sample:
  "vocabulary sample_commands =
     {js ''echo'', js ''fetch'', js ''fetch fast'', js ''fetch slow'', js ''abc'', js ''crash''}"
  by (auto simp: vocabulary_def sample_commands_def echo_def fetch_def abc_def crash_def
                 js_def space_def)

theorem suggestion_contract_witness:
  "trim (js ''  '') = [] \<and>
   suggestion sample_commands ((state useTerminal)\<lparr>inputText := js ''  ''\<rparr>) = [] \<and>
   startsWith (js ''fetch slow'') (trim (js '' fe'')) \<and>
   suggestion sample_commands ((state useTerminal)\<lparr>inputText := js '' fe''\<rparr>) \<le> js ''fetch slow'' \<and>
   js ''fetch'' \<in> vocabulary sample_commands \<and>
   trim (js '' fetch '') = js ''fetch'' \<and>
   suggestion sample_commands ((state useTerminal)\<lparr>inputText := js '' fetch ''\<rparr>) = js ''fetch''"
proof -
  let ?blank = "(state useTerminal)\<lparr>inputText := js ''  ''\<rparr>"
  let ?fe = "(state useTerminal)\<lparr>inputText := js '' fe''\<rparr>"
  let ?fetch = "(state useTerminal)\<lparr>inputText := js '' fetch ''\<rparr>"
  have t: "trim (inputText ?blank) = []" "trim (inputText ?fe) = js ''fe''"
          "trim (inputText ?fetch) = js ''fetch''"
    by (simp_all add: trim_def isWhiteSpace_def js_def)
  have p: "startsWith (js ''fetch slow'') (js ''fe'')"
    by (simp add: startsWith_def js_def)
  have v: "js ''fetch'' \<in> vocabulary sample_commands"
          "js ''fetch slow'' \<in> vocabulary sample_commands"
    by (simp_all add: vocabulary_sample)
  have n: "js ''fe'' \<noteq> []"
    by (simp add: js_def)
  have a: "suggestion sample_commands ?blank = []"
    using suggestion_contract [of ?blank sample_commands] unfolding t by blast
  have b: "suggestion sample_commands ?fe \<le> js ''fetch slow''"
    using suggestion_contract [of ?fe sample_commands] p v(2) n unfolding t by blast
  have c: "suggestion sample_commands ?fetch = js ''fetch''"
    using suggestion_contract [of ?fetch sample_commands] v(1) unfolding t by blast
  have t': "trim (js ''  '') = []" "trim (js '' fe'') = js ''fe''"
          "trim (js '' fetch '') = js ''fetch''"
    using t by simp_all
  show ?thesis
    using a b c p v(1) unfolding t' by blast
qed

section \<open>Submissions and the history\<close>

lemma browsing_abc_eq:
  "browsing_abc =
     \<lparr>state = \<lparr>inputText = js ''abc'',
               messages = [\<lparr>type = Input, text = js ''abc'', isHtml = False\<rparr>],
               historyEntries = [js ''abc''], historyIndex = 0,
               isRunning = False, isHalted = False\<rparr>,
      inflight = [], invoked = [(js ''abc'', [])]\<rparr>"
  unfolding browsing_abc_def by (simp add: evals)

lemma browsing_eq:
  "browsing =
     \<lparr>state = \<lparr>inputText = js '' '',
               messages = [\<lparr>type = Input, text = js ''abc'', isHtml = False\<rparr>],
               historyEntries = [js ''abc''], historyIndex = 0,
               isRunning = False, isHalted = False\<rparr>,
      inflight = [], invoked = [(js ''abc'', [])]\<rparr>"
  unfolding browsing_def by (simp add: evals)

lemma run_Resume_frame:
  "inputText (state (run commands (map Resume is) c)) = inputText (state c) \<and>
   historyEntries (state (run commands (map Resume is) c)) = historyEntries (state c) \<and>
   historyIndex (state (run commands (map Resume is) c)) = historyIndex (state c)"
proof (induction "is" arbitrary: c)
  case Nil
  then show ?case by (simp add: run_Nil)
next
  case (Cons i "is")
  have "inputText (state (step commands (Resume i) c)) = inputText (state c)"
    by (simp add: step_def Let_def flush_def resume_frame)
  then show ?case
    using Cons.IH [of "step commands (Resume i) c"]
    by (simp add: run_Cons step_fields resume_frame)
qed

lemma step_SetInput_inputText:
  "inputText (state (step commands (SetInput x) c)) = x"
  by (simp add: step_def Let_def flush_def setInput_def)

lemma step_SetInput_fields:
  "historyEntries (state (step commands (SetInput x) c)) = historyEntries (state c)"
  "isRunning (state (step commands (SetInput x) c)) = isRunning (state c)"
  by (simp_all add: step_fields setInput_def)

lemma execute_dropped: "isRunning (state c) \<Longrightarrow> execute commands c = c"
  by (simp add: execute_def)

lemma step_Execute_dropped:
  "isRunning (state c) \<Longrightarrow> isRunning (state (step commands Execute c))"
  by (simp add: step_fields execute_dropped)

lemma submit_twice:
  "historyEntries (state (run commands [SetInput x, Execute, SetInput x, Execute] c)) =
   historyEntries (state (run commands [SetInput x, Execute] c))"
proof -
  define c1 where "c1 = step commands (SetInput x) c"
  define c2 where "c2 = step commands Execute c1"
  define c3 where "c3 = step commands (SetInput x) c2"
  have i1: "inputText (state c1) = x" and i3: "inputText (state c3) = x"
    by (simp_all add: c1_def c3_def step_SetInput_inputText)
  have h2: "historyEntries (state c2) =
              (if \<not> isRunning (state c1) \<and> trim x \<noteq> [] \<and>
                  at (historyEntries (state c1)) 0 \<noteq> Some (trim x)
               then trim x # historyEntries (state c1) else historyEntries (state c1))"
    by (simp add: c2_def step_fields execute_historyEntries i1)
  have h3: "historyEntries (state c3) = historyEntries (state c2)"
    and r3: "isRunning (state c3) = isRunning (state c2)"
    by (simp_all add: c3_def step_SetInput_fields)
  have top: "at (historyEntries (state c2)) 0 = Some (trim x)"
    if "\<not> isRunning (state c2)" and "trim x \<noteq> []"
  proof -
    from that(1) have "\<not> isRunning (state c1)"
      unfolding c2_def using step_Execute_dropped by blast
    with that(2) show ?thesis
      unfolding h2 by (simp add: at_0)
  qed
  have "historyEntries (state (step commands Execute c3)) = historyEntries (state c2)"
    using top by (auto simp: step_fields execute_historyEntries i3 h3 r3)
  then show ?thesis
    by (simp add: run_Cons run_Nil c1_def c2_def c3_def)
qed

text \<open>
  C5, as stated, fails: a call of \<^verbatim>\<open>execute\<close> while a command is running is dropped before
  the append rule. In the session \<open>busy\<close> the trimmed input \<open>zzz\<close> is not empty and differs
  from the entry at index 0, and the history stays as it is.
\<close>

theorem execute_dropped_keeps_history:
  "trim (inputText (state busy)) = js ''zzz'' \<and> js ''zzz'' \<noteq> [] \<and>
   at (historyEntries (state busy)) 0 = Some (js ''fetch slow'') \<and>
   js ''fetch slow'' \<noteq> js ''zzz'' \<and>
   historyEntries (state (execute sample_commands busy)) = historyEntries (state busy)"
  by (simp add: busy_eq execute_def at_def trim_def isWhiteSpace_def js_def)

text \<open>
  C5, amended. On every call of \<^verbatim>\<open>execute\<close> that is not dropped by the single-flight guard,
  the trimmed input is put in front of \<open>historyEntries\<close> if and only if it is not empty and
  differs from the entry at index 0. In every session that starts from \<^verbatim>\<open>useTerminal\<close> no
  two adjacent entries are equal. Submitting the same line a second time right away never
  changes the history, and from the initial session it leaves a history of length one.
\<close>

theorem history_append_rule:
  "(\<not> isRunning (state c) \<longrightarrow>
      historyEntries (state (execute commands c)) =
        (if trim (inputText (state c)) \<noteq> [] \<and>
            at (historyEntries (state c)) 0 \<noteq> Some (trim (inputText (state c)))
         then trim (inputText (state c)) # historyEntries (state c)
         else historyEntries (state c))) \<and>
   distinct_adj (historyEntries (state (run commands events useTerminal))) \<and>
   historyEntries (state (run commands [SetInput x, Execute, SetInput x, Execute] c)) =
     historyEntries (state (run commands [SetInput x, Execute] c)) \<and>
   (trim x \<noteq> [] \<longrightarrow>
      historyEntries (state (run commands [SetInput x, Execute, SetInput x, Execute] useTerminal))
        = [trim x])"
proof -
  have "distinct_adj (historyEntries (state (run commands events useTerminal)))"
    using run_history_inv [of useTerminal commands events] by (simp add: useTerminal_def)
  moreover have "historyEntries (state (run commands [SetInput x, Execute] useTerminal)) = [trim x]"
    if "trim x \<noteq> []"
    using that
    by (simp add: run_Cons run_Nil step_fields execute_historyEntries step_SetInput_inputText
          setInput_def) (simp add: useTerminal_def at_def)
  ultimately show ?thesis
    by (simp add: execute_historyEntries submit_twice)
qed

theorem history_append_rule_witness:
  "\<not> isRunning (state browsing_abc) \<and>
   at (historyEntries (state browsing_abc)) 0 = Some (trim (inputText (state browsing_abc))) \<and>
   historyEntries (state (execute sample_commands browsing_abc)) = [js ''abc''] \<and>
   trim (js ''abc'') \<noteq> [] \<and>
   historyEntries
     (state (run sample_commands
               [SetInput (js ''abc''), Execute, SetInput (js ''abc''), Execute] useTerminal))
     = [js ''abc'']"
proof -
  have t: "trim (js ''abc'') = js ''abc''" "js ''abc'' \<noteq> []"
    by (simp_all add: trim_def isWhiteSpace_def js_def)
  have b: "\<not> isRunning (state browsing_abc)" "inputText (state browsing_abc) = js ''abc''"
          "historyEntries (state browsing_abc) = [js ''abc'']"
    by (simp_all add: browsing_abc_eq)
  from history_append_rule [of browsing_abc sample_commands "[]" "js ''abc''"] t b
  show ?thesis by (simp add: at_0)
qed

text \<open>
  C7, as stated, fails: a submission whose trimmed input is empty ends before the history
  is touched, and the cursor stays where it was. In the session \<open>browsing\<close> the user is at
  entry 0 and submits a blank line; the call is not dropped, and \<open>historyIndex\<close> is still 0.
  Nor does the call itself keep the cursor at \<open>-1\<close> until it completes: a navigation while
  the handler runs moves it, as the up arrow does while \<open>fetch\<close> waits.
\<close>

theorem execute_blank_keeps_cursor:
  "\<not> isRunning (state browsing) \<and>
   historyIndex (state (execute sample_commands browsing)) = 0 \<and>
   historyIndex (state (step sample_commands Execute browsing)) = 0 \<and>
   inflight (run sample_commands
      [SetInput (js ''fetch slow''), Execute, NavigateToPreviousEntry, Resume 0, Resume 0]
      useTerminal) = [] \<and>
   historyIndex (state (run sample_commands
      [SetInput (js ''fetch slow''), Execute, NavigateToPreviousEntry, Resume 0, Resume 0]
      useTerminal)) = 0"
  by (simp add: browsing_eq step_fields execute_historyIndex) (simp add: evals)

lemma step_keeps_reset_cursor:
  assumes "historyIndex (state c) = - 1"
      and "e \<noteq> NavigateToPreviousEntry" and "e \<noteq> NavigateToNextEntry"
  shows "historyIndex (state (step commands e c)) = - 1"
  using assms
  by (cases e)
     (simp_all add: step_fields execute_historyIndex resume_frame setInput_def
        autocompleteSuggestion_def haltExecution_def appendMessage_def Let_def)

lemma run_keeps_reset_cursor:
  assumes "historyIndex (state c) = - 1"
      and "NavigateToPreviousEntry \<notin> set events" and "NavigateToNextEntry \<notin> set events"
  shows "historyIndex (state (run commands events c)) = - 1"
  using assms
proof (induction events arbitrary: c)
  case Nil
  then show ?case by (simp add: run_Nil)
next
  case (Cons e events)
  from Cons.prems have "historyIndex (state (step commands e c)) = - 1"
    by (intro step_keeps_reset_cursor) auto
  with Cons.prems Cons.IH [of "step commands e c"] show ?case
    by (simp add: run_Cons)
qed

text \<open>
  C7, amended. For every call of \<^verbatim>\<open>execute\<close> that is not dropped by the single-flight
  guard and whose trimmed input is not empty, \<open>historyIndex\<close> is \<open>-1\<close> when the call
  returns, whether or not an entry was appended and wherever the cursor was, and it is
  still \<open>-1\<close> when the handler has run on and the call has completed, after any events
  among which there is no call of \<^verbatim>\<open>navigateToPreviousEntry\<close> or
  \<^verbatim>\<open>navigateToNextEntry\<close>. A submission of a blank line leaves the cursor where it was.
\<close>

theorem execute_resets_cursor:
  "\<not> isRunning (state c) \<longrightarrow>
     historyIndex (state (execute commands c)) =
       (if trim (inputText (state c)) = [] then historyIndex (state c) else - 1) \<and>
     historyIndex (state (run commands (map Resume is) (step commands Execute c))) =
       (if trim (inputText (state c)) = [] then historyIndex (state c) else - 1) \<and>
     (trim (inputText (state c)) \<noteq> [] \<and>
      NavigateToPreviousEntry \<notin> set events \<and> NavigateToNextEntry \<notin> set events \<longrightarrow>
        historyIndex (state (run commands events (step commands Execute c))) = - 1)"
proof -
  have "historyIndex (state (run commands events (step commands Execute c))) = - 1"
    if "\<not> isRunning (state c)" "trim (inputText (state c)) \<noteq> []"
       "NavigateToPreviousEntry \<notin> set events" "NavigateToNextEntry \<notin> set events"
  proof -
    from that(1,2) have "historyIndex (state (step commands Execute c)) = - 1"
      by (simp add: step_fields execute_historyIndex)
    then show ?thesis using that(3,4) by (rule run_keeps_reset_cursor)
  qed
  then show ?thesis
    by (simp add: run_Resume_frame step_fields execute_historyIndex)
qed

theorem execute_resets_cursor_witness:
  "\<not> isRunning (state browsing_abc) \<and> historyIndex (state browsing_abc) = 0 \<and>
   historyEntries (state (execute sample_commands browsing_abc)) = [js ''abc''] \<and>
   historyIndex (state (execute sample_commands browsing_abc)) = - 1 \<and>
   historyIndex
     (state (run sample_commands [Resume 0] (step sample_commands Execute browsing_abc))) = - 1 \<and>
   historyIndex
     (state (run sample_commands [HaltExecution, SetInput (js ''zzz''), Execute, Resume 0]
               (step sample_commands Execute browsing_abc))) = - 1"
proof -
  have t: "trim (inputText (state browsing_abc)) = js ''abc''" "js ''abc'' \<noteq> []"
    by (simp_all add: browsing_abc_eq trim_def isWhiteSpace_def js_def)
  have h: "historyEntries (state (execute sample_commands browsing_abc)) = [js ''abc'']"
    by (simp add: execute_historyEntries t) (simp add: browsing_abc_eq at_def)
  have r: "\<not> isRunning (state browsing_abc)" "historyIndex (state browsing_abc) = 0"
    by (simp_all add: browsing_abc_eq)
  from execute_resets_cursor [of browsing_abc sample_commands "[0]"
         "[HaltExecution, SetInput (js ''zzz''), Execute, Resume 0]"] r t h
  show ?thesis by simp
qed

section \<open>Parsing the input\<close>

lemma split_not_Nil: "split sep t \<noteq> []"
  by (induction t) (auto split: list.splits)

lemma join_Cons: "pieces \<noteq> [] \<Longrightarrow> join sep (piece # pieces) = piece @ sep # join sep pieces"
  by (cases pieces) simp_all

lemma join_split: "join sep (split sep t) = t"
proof (induction t)
  case Nil
  then show ?case by simp
next
  case (Cons c cs)
  show ?case
  proof (cases "c = sep")
    case True
    then show ?thesis using Cons.IH by (simp add: join_Cons split_not_Nil)
  next
    case False
    obtain piece pieces where s: "split sep cs = piece # pieces"
      using split_not_Nil [of sep cs] by (cases "split sep cs") auto
    with Cons.IH False show ?thesis by (cases pieces) auto
  qed
qed

lemma split_pieces: "piece \<in> set (split sep t) \<Longrightarrow> sep \<notin> set piece"
  by (induction t arbitrary: piece) (auto split: if_splits list.splits)

lemma hd_split: "hd (split sep t) = takeWhile (\<lambda>c. c \<noteq> sep) t"
  by (induction t) (auto split: list.splits simp: split_not_Nil)

lemma length_split: "length (split sep t) = Suc (length (filter (\<lambda>c. c = sep) t))"
  by (induction t) (auto split: list.splits simp: split_not_Nil)

lemma parseInput_split: "parseInput t = (command, args) \<Longrightarrow> split space t = command # args"
  using split_not_Nil [of space t] by (auto simp: parseInput_def split: list.splits)

lemma busy_echo_eq:
  "busy_echo =
     \<lparr>state = \<lparr>inputText = js ''echo a b'',
               messages = [\<lparr>type = Input, text = js ''fetch slow'', isHtml = False\<rparr>],
               historyEntries = [js ''fetch slow''], historyIndex = - 1,
               isRunning = True, isHalted = False\<rparr>,
      inflight = [Await (IsHalted Reject (AppendOutput (js ''done'') None Return))],
      invoked = [(js ''fetch'', [js ''slow''])]\<rparr>"
  unfolding busy_echo_def by (simp add: evals)

text \<open>
  C8, as stated, fails: the input is split at every single space and at nothing else. Two
  spaces in a row enclose an empty argument token, which the handler receives (\<open>echo\<close>
  prints it), and a tab separates nothing. And a call that the single-flight guard drops
  passes nothing to any handler: in \<open>busy_echo\<close> the line \<open>echo a b\<close> is typed while
  \<open>fetch\<close> runs, and \<open>echo\<close> is not invoked.
\<close>

theorem parseInput_double_space:
  "trim (js ''echo  hi'') = js ''echo  hi'' \<and>
   parseInput (js ''echo  hi'') = (js ''echo'', [[], js ''hi'']) \<and>
   invoked (run sample_commands [SetInput (js ''echo  hi''), Execute] useTerminal) =
     [(js ''echo'', [[], js ''hi''])] \<and>
   messages (state (run sample_commands [SetInput (js ''echo  hi''), Execute] useTerminal)) =
     [\<lparr>type = Input, text = js ''echo  hi'', isHtml = False\<rparr>,
      \<lparr>type = Output, text = js '' hi'', isHtml = False\<rparr>] \<and>
   isWhiteSpace 0x09 \<and>
   parseInput (js ''echo'' @ [0x09] @ js ''hi'') = (js ''echo'' @ [0x09] @ js ''hi'', []) \<and>
   isRunning (state busy_echo) \<and>
   trim (inputText (state busy_echo)) = js ''echo a b'' \<and>
   invoked (execute sample_commands busy_echo) = [(js ''fetch'', [js ''slow''])] \<and>
   messages (state (execute sample_commands busy_echo)) =
     [\<lparr>type = Input, text = js ''fetch slow'', isHtml = False\<rparr>]"
  by (simp add: busy_echo_eq evals)

lemma execute_dispatch:
  assumes "\<not> isRunning (state c)"
      and "trim (inputText (state c)) \<noteq> []"
      and "parseInput (trim (inputText (state c))) = (command, args)"
      and "find (\<lambda>commandDefinition. name commandDefinition = command) commands = Some cd"
  shows "\<exists>s0. isRunning s0 \<and> \<not> isHalted s0 \<and> inputText s0 = [] \<and> historyIndex s0 = - 1 \<and>
              historyEntries s0 =
                (if at (historyEntries (state c)) 0 \<noteq> Some (trim (inputText (state c)))
                 then trim (inputText (state c)) # historyEntries (state c)
                 else historyEntries (state c)) \<and>
              messages s0 = messages (state c) @
                 [\<lparr>type = Input, text = trim (inputText (state c)), isHtml = False\<rparr>] \<and>
              execute commands c = invoke cd args (c\<lparr>state := s0\<rparr>)"
proof -
  let ?input = "trim (inputText (state c))"
  let ?s2 = "(appendMessage ?input Input False (state c))\<lparr>inputText := []\<rparr>"
  let ?s3 = "if at (historyEntries ?s2) 0 \<noteq> Some ?input
             then ?s2\<lparr>historyEntries := ?input # historyEntries ?s2\<rparr> else ?s2"
  let ?s0 = "?s3\<lparr>historyIndex := - 1, isRunning := True, isHalted := False\<rparr>"
  have "execute commands c = invoke cd args (c\<lparr>state := ?s0\<rparr>)"
    using assms by (simp add: execute_def Let_def)
  moreover have "isRunning ?s0" "\<not> isHalted ?s0" "inputText ?s0 = []" "historyIndex ?s0 = - 1"
    "historyEntries ?s0 =
       (if at (historyEntries (state c)) 0 \<noteq> Some ?input
        then ?input # historyEntries (state c) else historyEntries (state c))"
    "messages ?s0 = messages (state c) @ [\<lparr>type = Input, text = ?input, isHtml = False\<rparr>]"
    by (simp_all add: appendMessage_def)
  ultimately show ?thesis by blast
qed

lemma invoke_invoked: "invoked (invoke cd args c) = invoked c @ [(name cd, args)]"
  by (simp add: invoke_def Let_def split: prod.splits)

text \<open>
  C8, amended. \<^verbatim>\<open>parseInput\<close> splits its text at every space character (U+0020):
  the command token is the text up to the first space, the argument tokens are the pieces
  between the spaces that follow, in order, so that joining the tokens with single spaces
  gives the input back, no token contains a space, and there are as many argument tokens
  as spaces (two adjacent spaces enclose an empty token; other white space separates
  nothing). Every call of \<^verbatim>\<open>execute\<close> that is not dropped by the single-flight guard
  parses its trimmed input, when that is not empty, in this way, and calls the handler of
  the matched command with exactly that argument sequence: the run that the call starts,
  in the session \<open>s0\<close> it has prepared, is the run of the handler on these arguments. A
  dropped call calls no handler.
\<close>

theorem parseInput_contract:
  "(parseInput t = (command, args) \<longrightarrow>
      command = takeWhile (\<lambda>c. c \<noteq> space) t \<and>
      join space (command # args) = t \<and>
      (\<forall>piece \<in> set (command # args). space \<notin> set piece) \<and>
      length args = length (filter (\<lambda>c. c = space) t)) \<and>
   (\<not> isRunning (state c) \<and> trim (inputText (state c)) \<noteq> [] \<and>
    parseInput (trim (inputText (state c))) = (command', args') \<and>
    find (\<lambda>commandDefinition. name commandDefinition = command') commands = Some cd \<longrightarrow>
      name cd = command' \<and>
      invoked (execute commands c) = invoked c @ [(command', args')] \<and>
      (\<exists>s0 s1 h.
         isRunning s0 \<and> \<not> isHalted s0 \<and> inputText s0 = [] \<and> historyIndex s0 = - 1 \<and>
         historyEntries s0 =
           (if at (historyEntries (state c)) 0 \<noteq> Some (trim (inputText (state c)))
            then trim (inputText (state c)) # historyEntries (state c)
            else historyEntries (state c)) \<and>
         messages s0 = messages (state c) @
           [\<lparr>type = Input, text = trim (inputText (state c)), isHtml = False\<rparr>] \<and>
         run_handler (handler cd args') s0 = (s1, h) \<and>
         (if h = Throw
          then state (execute commands c) = s1\<lparr>isRunning := False\<rparr> \<and>
               inflight (execute commands c) = inflight c
          else state (execute commands c) = s1 \<and>
               inflight (execute commands c) = inflight c @ [h]))) \<and>
   (isRunning (state c) \<longrightarrow> invoked (execute commands c) = invoked c)"
proof -
  have "command = takeWhile (\<lambda>c. c \<noteq> space) t \<and> join space (command # args) = t \<and>
        (\<forall>piece \<in> set (command # args). space \<notin> set piece) \<and>
        length args = length (filter (\<lambda>c. c = space) t)"
    if "parseInput t = (command, args)"
  proof -
    from that have s: "split space t = command # args" by (rule parseInput_split)
    from hd_split [of space t] join_split [of space t] length_split [of space t]
         split_pieces [of _ space t]
    show ?thesis unfolding s by auto
  qed
  moreover have "name cd = command' \<and>
      invoked (execute commands c) = invoked c @ [(command', args')] \<and>
      (\<exists>s0 s1 h.
         isRunning s0 \<and> \<not> isHalted s0 \<and> inputText s0 = [] \<and> historyIndex s0 = - 1 \<and>
         historyEntries s0 =
           (if at (historyEntries (state c)) 0 \<noteq> Some (trim (inputText (state c)))
            then trim (inputText (state c)) # historyEntries (state c)
            else historyEntries (state c)) \<and>
         messages s0 = messages (state c) @
           [\<lparr>type = Input, text = trim (inputText (state c)), isHtml = False\<rparr>] \<and>
         run_handler (handler cd args') s0 = (s1, h) \<and>
         (if h = Throw
          then state (execute commands c) = s1\<lparr>isRunning := False\<rparr> \<and>
               inflight (execute commands c) = inflight c
          else state (execute commands c) = s1 \<and>
               inflight (execute commands c) = inflight c @ [h]))"
    if a: "\<not> isRunning (state c)" "trim (inputText (state c)) \<noteq> []"
      "parseInput (trim (inputText (state c))) = (command', args')"
      "find (\<lambda>commandDefinition. name commandDefinition = command') commands = Some cd"
  proof -
    from a(4) have n: "name cd = command'" by (auto simp: find_Some_iff)
    from execute_dispatch [OF a] obtain s0
      where e: "execute commands c = invoke cd args' (c\<lparr>state := s0\<rparr>)"
        and pre: "isRunning s0" "\<not> isHalted s0" "inputText s0 = []" "historyIndex s0 = - 1"
          "historyEntries s0 =
             (if at (historyEntries (state c)) 0 \<noteq> Some (trim (inputText (state c)))
              then trim (inputText (state c)) # historyEntries (state c)
              else historyEntries (state c))"
          "messages s0 = messages (state c) @
             [\<lparr>type = Input, text = trim (inputText (state c)), isHtml = False\<rparr>]"
      by blast
    obtain s1 h where r: "run_handler (handler cd args') s0 = (s1, h)"
      by (cases "run_handler (handler cd args') s0")
    have i: "invoked (execute commands c) = invoked c @ [(command', args')]"
      unfolding e by (simp add: invoke_invoked n)
    have "if h = Throw
          then state (execute commands c) = s1\<lparr>isRunning := False\<rparr> \<and>
               inflight (execute commands c) = inflight c
          else state (execute commands c) = s1 \<and>
               inflight (execute commands c) = inflight c @ [h]"
      unfolding e using r by (simp add: invoke_def)
    with n i pre r show ?thesis by blast
  qed
  moreover have "invoked (execute commands c) = invoked c" if "isRunning (state c)"
    using that by (simp add: execute_dropped)
  ultimately show ?thesis by blast
qed

lemma typed_echo_eq:
  "typed_echo = useTerminal\<lparr>state := (state useTerminal)\<lparr>inputText := js ''echo a b''\<rparr>\<rparr>"
  unfolding typed_echo_def by (simp add: evals)

theorem parseInput_contract_witness:
  "parseInput (js ''echo a b'') = (js ''echo'', [js ''a'', js ''b'']) \<and>
   \<not> isRunning (state typed_echo) \<and>
   trim (inputText (state typed_echo)) = js ''echo a b'' \<and>
   find (\<lambda>commandDefinition. name commandDefinition = js ''echo'') sample_commands = Some echo \<and>
   join space [js ''echo'', js ''a'', js ''b''] = js ''echo a b'' \<and>
   invoked (execute sample_commands typed_echo) = [(js ''echo'', [js ''a'', js ''b''])] \<and>
   messages (state (execute sample_commands typed_echo)) =
     [\<lparr>type = Input, text = js ''echo a b'', isHtml = False\<rparr>,
      \<lparr>type = Output, text = js ''a b'', isHtml = False\<rparr>] \<and>
   inflight (execute sample_commands typed_echo) = [Return]"
proof -
  have a: "\<not> isRunning (state typed_echo)" "trim (inputText (state typed_echo)) = js ''echo a b''"
          "js ''echo a b'' \<noteq> []" "invoked typed_echo = []" "messages (state typed_echo) = []"
          "inflight typed_echo = []"
    by (simp_all add: typed_echo_eq useTerminal_def trim_def isWhiteSpace_def js_def)
  have p: "parseInput (js ''echo a b'') = (js ''echo'', [js ''a'', js ''b''])"
    by (simp add: parseInput_def js_def space_def)
  have f: "find (\<lambda>commandDefinition. name commandDefinition = js ''echo'') sample_commands
             = Some echo"
    by (simp add: sample_commands_def echo_def js_def)
  note t = parseInput_contract [of "js ''echo a b''" "js ''echo''" "[js ''a'', js ''b'']"
             typed_echo "js ''echo''" "[js ''a'', js ''b'']" sample_commands echo, unfolded a(2)]
  from t p have j: "join space [js ''echo'', js ''a'', js ''b''] = js ''echo a b''"
    by blast
  from t a(1,3) p f
  have i: "invoked (execute sample_commands typed_echo) =
          invoked typed_echo @ [(js ''echo'', [js ''a'', js ''b''])]"
    by blast
  from t a(1,3) p f obtain s0 s1 h
    where d: "messages s0 = messages (state typed_echo) @
                [\<lparr>type = Input, text = js ''echo a b'', isHtml = False\<rparr>]"
      "run_handler (handler echo [js ''a'', js ''b'']) s0 = (s1, h)"
      "if h = Throw
       then state (execute sample_commands typed_echo) = s1\<lparr>isRunning := False\<rparr> \<and>
            inflight (execute sample_commands typed_echo) = inflight typed_echo
       else state (execute sample_commands typed_echo) = s1 \<and>
            inflight (execute sample_commands typed_echo) = inflight typed_echo @ [h]"
    by blast
  from d(2) have h: "h = Return" "s1 = appendOutput (js ''a b'') None s0"
    by (auto simp: echo_def js_def space_def)
  from d(3) h have "state (execute sample_commands typed_echo) = appendOutput (js ''a b'') None s0"
    "inflight (execute sample_commands typed_echo) = inflight typed_echo @ [Return]"
    by simp_all
  with d(1) a(5,6)
  have m: "messages (state (execute sample_commands typed_echo)) =
     [\<lparr>type = Input, text = js ''echo a b'', isHtml = False\<rparr>,
      \<lparr>type = Output, text = js ''a b'', isHtml = False\<rparr>]"
    "inflight (execute sample_commands typed_echo) = [Return]"
    by (simp_all add: appendOutput_def appendMessage_def)
  from a p f j i m show ?thesis by simp
qed

section \<open>Unknown commands\<close>

lemma execute_unknown:
  assumes "\<not> isRunning (state c)"
      and "trim (inputText (state c)) \<noteq> []"
      and "parseInput (trim (inputText (state c))) = (command, args)"
      and "find (\<lambda>commandDefinition. name commandDefinition = command) commands = None"
  shows "messages (state (execute commands c)) =
           messages (state c) @
             [\<lparr>type = Input, text = trim (inputText (state c)), isHtml = False\<rparr>,
              \<lparr>type = Output, text = js ''sh: command not found: '' @ command, isHtml = False\<rparr>]"
    and "invoked (execute commands c) = invoked c"
    and "inflight (execute commands c) = inflight c"
    and "\<not> isRunning (state (execute commands c))"
    and "isHalted (state (execute commands c)) = isHalted (state c)"
  using assms by (simp_all add: execute_def Let_def appendOutput_def appendMessage_def)

text \<open>
  C4, as stated, fails: a call of \<^verbatim>\<open>execute\<close> while a command is running is dropped, and
  nothing is appended. In the session \<open>busy\<close> the trimmed input is \<open>zzz\<close>, which is not the
  name of a command, and the transcript stays as it is.
\<close>

theorem execute_dropped_prints_nothing:
  "trim (inputText (state busy)) = js ''zzz'' \<and> js ''zzz'' \<noteq> [] \<and>
   parseInput (js ''zzz'') = (js ''zzz'', []) \<and>
   js ''zzz'' \<notin> set (map name sample_commands) \<and>
   messages (state (execute sample_commands busy)) = messages (state busy)"
  by (simp add: busy_eq evals)

text \<open>
  C4, amended. For every call of \<^verbatim>\<open>execute\<close> that is not dropped by the single-flight
  guard, with a trimmed input that is not empty and a command token that is not the name
  of a registered command: the transcript gains the echoed input and then exactly one
  output message \<open>sh: command not found: <token>\<close>, no handler is invoked, and
  \<open>isRunning\<close> is false after the call as it was before.
\<close>

theorem execute_unknown_command:
  "\<not> isRunning (state c) \<and> trim (inputText (state c)) \<noteq> [] \<and>
   parseInput (trim (inputText (state c))) = (command, args) \<and>
   find (\<lambda>commandDefinition. name commandDefinition = command) commands = None \<longrightarrow>
     messages (state (step commands Execute c)) =
       messages (state c) @
         [\<lparr>type = Input, text = trim (inputText (state c)), isHtml = False\<rparr>,
          \<lparr>type = Output, text = js ''sh: command not found: '' @ command, isHtml = False\<rparr>] \<and>
     messages (state (execute commands c)) = messages (state (step commands Execute c)) \<and>
     invoked (execute commands c) = invoked c \<and>
     inflight (execute commands c) = inflight c \<and>
     \<not> isRunning (state (execute commands c)) \<and>
     isHalted (state (execute commands c)) = isHalted (state c)"
  by (simp add: execute_unknown step_fields)

lemma typed_zzz_eq: "typed_zzz = useTerminal\<lparr>state := (state useTerminal)\<lparr>inputText := js '' zzz a''\<rparr>\<rparr>"
  unfolding typed_zzz_def by (simp add: evals)

theorem execute_unknown_command_witness:
  "\<not> isRunning (state typed_zzz) \<and>
   trim (inputText (state typed_zzz)) = js ''zzz a'' \<and>
   parseInput (js ''zzz a'') = (js ''zzz'', [js ''a'']) \<and>
   find (\<lambda>commandDefinition. name commandDefinition = js ''zzz'') sample_commands = None \<and>
   messages (state (execute sample_commands typed_zzz)) =
     [\<lparr>type = Input, text = js ''zzz a'', isHtml = False\<rparr>,
      \<lparr>type = Output, text = js ''sh: command not found: zzz'', isHtml = False\<rparr>] \<and>
   invoked (execute sample_commands typed_zzz) = []"
proof -
  have a: "\<not> isRunning (state typed_zzz)" "trim (inputText (state typed_zzz)) = js ''zzz a''"
          "js ''zzz a'' \<noteq> []" "messages (state typed_zzz) = []" "invoked typed_zzz = []"
    by (simp_all add: typed_zzz_eq useTerminal_def trim_def isWhiteSpace_def js_def)
  have p: "parseInput (js ''zzz a'') = (js ''zzz'', [js ''a''])"
    by (simp add: parseInput_def js_def space_def)
  have f: "find (\<lambda>commandDefinition. name commandDefinition = js ''zzz'') sample_commands = None"
    by (simp add: sample_commands_def echo_def fetch_def abc_def crash_def js_def)
  from execute_unknown_command [of typed_zzz "js ''zzz''" "[js ''a'']" sample_commands] a p f
  show ?thesis by (simp add: js_def)
qed

section \<open>Guaranteed release\<close>

lemma run_handler_suspended:
  "run_handler h s = (s', h') \<Longrightarrow> suspended h' \<and> awaits h' \<le> awaits h"
  by (induction h s rule: run_handler.induct)
     (auto simp: suspended_def settled_def split: if_splits)

lemma invoke_result:
  assumes "isRunning (state c)"
  shows "\<exists>s1 h. run_handler (handler cd args) (state c) = (s1, h) \<and> isRunning s1 \<and> suspended h \<and>
           (if h = Throw
            then state (invoke cd args c) = s1\<lparr>isRunning := False\<rparr> \<and>
                 inflight (invoke cd args c) = inflight c
            else state (invoke cd args c) = s1 \<and> inflight (invoke cd args c) = inflight c @ [h])"
proof -
  obtain s1 h where r: "run_handler (handler cd args) (state c) = (s1, h)"
    by (cases "run_handler (handler cd args) (state c)")
  with assms have "isRunning s1" by (auto dest: run_handler_frame)
  moreover from r have "suspended h" by (auto dest: run_handler_suspended)
  ultimately show ?thesis using r by (auto simp: invoke_def)
qed

lemma resume_settled:
  assumes "i < length (inflight c)" and "settled (inflight c ! i)"
  shows "\<not> isRunning (state (step commands (Resume i) c))"
    and "inflight (step commands (Resume i) c) = take i (inflight c) @ drop (Suc i) (inflight c)"
  using assms by (simp_all add: step_fields resume_def)

lemma step_Resume_idle: "inflight c = [] \<Longrightarrow> step commands (Resume i) c = c"
  by (simp add: step_def resume_def flush_def)

lemma run_Resume_idle: "inflight c = [] \<Longrightarrow> run commands (replicate n (Resume i)) c = c"
  by (induction n) (simp_all add: run_Nil run_Cons step_Resume_idle)

lemma step_Resume_Pending: "inflight c = [Pending] \<Longrightarrow> step commands (Resume 0) c = c"
  by (simp add: step_def resume_def flush_def settled_def)

lemma run_Resume_Pending:
  "inflight c = [Pending] \<Longrightarrow> run commands (replicate n (Resume 0)) c = c"
  by (induction n) (simp_all add: run_Nil run_Cons step_Resume_Pending)

lemma resumes_settle:
  assumes "inflight c = [h]" and "suspended h" and "awaits h \<le> n"
  shows "(inflight (run commands (replicate (Suc n) (Resume 0)) c) = [] \<and>
          \<not> isRunning (state (run commands (replicate (Suc n) (Resume 0)) c))) \<or>
         inflight (run commands (replicate (Suc n) (Resume 0)) c) = [Pending]"
  using assms
proof (induction n arbitrary: c h)
  case 0
  then consider "settled h" | "h = Pending"
    by (auto simp: suspended_def split: handler_run.splits)
  then show ?case
  proof cases
    case 1
    with 0 show ?thesis by (simp add: run_Cons run_Nil resume_settled)
  next
    case 2
    with 0 show ?thesis by (simp add: run_Cons run_Nil step_Resume_Pending)
  qed
next
  case (Suc n)
  let ?c1 = "step commands (Resume 0) c"
  have unfold: "run commands (replicate (Suc (Suc n)) (Resume 0)) c =
                run commands (replicate (Suc n) (Resume 0)) ?c1"
    by (simp add: run_Cons)
  from Suc.prems(2) consider "settled h" | "h = Pending" | h' where "h = Await h'"
    by (auto simp: suspended_def split: handler_run.splits)
  then show ?case
  proof cases
    case 1
    with Suc.prems have idle: "inflight ?c1 = []" "\<not> isRunning (state ?c1)"
      by (simp_all add: resume_settled)
    from idle(1) have "run commands (replicate (Suc n) (Resume 0)) ?c1 = ?c1"
      by (rule run_Resume_idle)
    with idle show ?thesis unfolding unfold by simp
  next
    case 2
    with Suc.prems have p: "inflight c = [Pending]" by simp
    then have "run commands (replicate (Suc (Suc n)) (Resume 0)) c = c"
      by (rule run_Resume_Pending)
    with p show ?thesis by simp
  next
    case 3
    obtain s1 h1 where r: "run_handler h' (state c) = (s1, h1)"
      by (cases "run_handler h' (state c)")
    then have "suspended h1" "awaits h1 \<le> awaits h'"
      by (auto dest: run_handler_suspended)
    moreover have "inflight ?c1 = [h1]"
      using Suc.prems(1) 3 r by (simp add: step_fields resume_def settled_def)
    ultimately show ?thesis
      unfolding unfold using Suc.IH [of ?c1 h1] Suc.prems(3) 3 by simp
  qed
qed

text \<open>
  C2. When a call of \<^verbatim>\<open>execute\<close> reaches the dispatch, the handler starts in the session
  \<open>s0\<close> that the call has prepared (the input echoed and cleared, the history updated, the
  cursor reset, \<open>isHalted\<close> false), in which \<open>isRunning\<close> is true, and it runs with the
  flag up; a handler that throws synchronously leaves the call with the flag down at
  once, any other leaves the invocation in flight. Resuming an invocation whose handler has settled, by return,
  throw or rejection, lowers the flag and ends the invocation. In every session from
  \<^verbatim>\<open>useTerminal\<close> the flag is up exactly while an invocation is in flight. And every
  invocation is ended, with the flag down, after as many resumptions as its handler has
  waits plus one, unless its handler never settles.
\<close>

theorem execute_guaranteed_release:
  "(\<not> isRunning (state c) \<and> trim (inputText (state c)) \<noteq> [] \<and>
    parseInput (trim (inputText (state c))) = (command, args) \<and>
    find (\<lambda>commandDefinition. name commandDefinition = command) commands = Some cd \<longrightarrow>
      (\<exists>s0 s1 h.
         isRunning s0 \<and> \<not> isHalted s0 \<and> inputText s0 = [] \<and> historyIndex s0 = - 1 \<and>
         historyEntries s0 =
           (if at (historyEntries (state c)) 0 \<noteq> Some (trim (inputText (state c)))
            then trim (inputText (state c)) # historyEntries (state c)
            else historyEntries (state c)) \<and>
         messages s0 = messages (state c) @
           [\<lparr>type = Input, text = trim (inputText (state c)), isHtml = False\<rparr>] \<and>
         run_handler (handler cd args) s0 = (s1, h) \<and> isRunning s1 \<and>
         (if h = Throw
          then state (execute commands c) = s1\<lparr>isRunning := False\<rparr> \<and>
               inflight (execute commands c) = inflight c
          else state (execute commands c) = s1 \<and>
               inflight (execute commands c) = inflight c @ [h]))) \<and>
   (i < length (inflight c') \<and> settled (inflight c' ! i) \<longrightarrow>
      \<not> isRunning (state (step commands (Resume i) c')) \<and>
      inflight (step commands (Resume i) c') = take i (inflight c') @ drop (Suc i) (inflight c')) \<and>
   (isRunning (state (run commands events useTerminal)) \<longleftrightarrow>
      inflight (run commands events useTerminal) \<noteq> []) \<and>
   (inflight c'' = [h'] \<and> suspended h' \<longrightarrow>
      (inflight (run commands (replicate (Suc (awaits h')) (Resume 0)) c'') = [] \<and>
       \<not> isRunning (state (run commands (replicate (Suc (awaits h')) (Resume 0)) c''))) \<or>
      inflight (run commands (replicate (Suc (awaits h')) (Resume 0)) c'') = [Pending])"
proof -
  have dispatch: "\<exists>s0 s1 h.
         isRunning s0 \<and> \<not> isHalted s0 \<and> inputText s0 = [] \<and> historyIndex s0 = - 1 \<and>
         historyEntries s0 =
           (if at (historyEntries (state c)) 0 \<noteq> Some (trim (inputText (state c)))
            then trim (inputText (state c)) # historyEntries (state c)
            else historyEntries (state c)) \<and>
         messages s0 = messages (state c) @
           [\<lparr>type = Input, text = trim (inputText (state c)), isHtml = False\<rparr>] \<and>
         run_handler (handler cd args) s0 = (s1, h) \<and> isRunning s1 \<and>
         (if h = Throw
          then state (execute commands c) = s1\<lparr>isRunning := False\<rparr> \<and>
               inflight (execute commands c) = inflight c
          else state (execute commands c) = s1 \<and>
               inflight (execute commands c) = inflight c @ [h])"
    if a: "\<not> isRunning (state c)" "trim (inputText (state c)) \<noteq> []"
      "parseInput (trim (inputText (state c))) = (command, args)"
      "find (\<lambda>commandDefinition. name commandDefinition = command) commands = Some cd"
  proof -
    from execute_dispatch [OF a] obtain s0
      where s0: "isRunning s0" "execute commands c = invoke cd args (c\<lparr>state := s0\<rparr>)"
        and pre: "\<not> isHalted s0" "inputText s0 = []" "historyIndex s0 = - 1"
          "historyEntries s0 =
             (if at (historyEntries (state c)) 0 \<noteq> Some (trim (inputText (state c)))
              then trim (inputText (state c)) # historyEntries (state c)
              else historyEntries (state c))"
          "messages s0 = messages (state c) @
             [\<lparr>type = Input, text = trim (inputText (state c)), isHtml = False\<rparr>]"
      by blast
    from invoke_result [of "c\<lparr>state := s0\<rparr>" cd args] s0(1) obtain s1 h
      where "run_handler (handler cd args) s0 = (s1, h)" "isRunning s1"
        "if h = Throw
         then state (invoke cd args (c\<lparr>state := s0\<rparr>)) = s1\<lparr>isRunning := False\<rparr> \<and>
              inflight (invoke cd args (c\<lparr>state := s0\<rparr>)) = inflight c
         else state (invoke cd args (c\<lparr>state := s0\<rparr>)) = s1 \<and>
              inflight (invoke cd args (c\<lparr>state := s0\<rparr>)) = inflight c @ [h]"
      by auto
    with s0 pre show ?thesis by metis
  qed
  have flag: "isRunning (state (run commands events useTerminal)) \<longleftrightarrow>
              inflight (run commands events useTerminal) \<noteq> []"
    using run_flight_inv [of useTerminal commands events] by (simp add: useTerminal_def)
  from dispatch flag resume_settled [of i c' commands] resumes_settle [of c'' h' "awaits h'" commands]
  show ?thesis by blast
qed

lemma typed_fetch_eq:
  "typed_fetch = useTerminal\<lparr>state := (state useTerminal)\<lparr>inputText := js ''fetch slow''\<rparr>\<rparr>"
  unfolding typed_fetch_def by (simp add: evals)

lemma rejected_eq:
  "rejected =
     \<lparr>state = \<lparr>inputText = [],
               messages = [\<lparr>type = Input, text = js ''fetch slow'', isHtml = False\<rparr>],
               historyEntries = [js ''fetch slow''], historyIndex = - 1,
               isRunning = True, isHalted = True\<rparr>,
      inflight = [Reject],
      invoked = [(js ''fetch'', [js ''slow''])]\<rparr>"
  unfolding rejected_def by (simp add: evals)

theorem execute_guaranteed_release_witness:
  "\<not> isRunning (state typed_fetch) \<and>
   trim (inputText (state typed_fetch)) = js ''fetch slow'' \<and>
   parseInput (js ''fetch slow'') = (js ''fetch'', [js ''slow'']) \<and>
   find (\<lambda>commandDefinition. name commandDefinition = js ''fetch'') sample_commands = Some fetch \<and>
   isRunning (state (execute sample_commands typed_fetch)) \<and>
   isRunning (state rejected) \<and> inflight rejected = [Reject] \<and>
   \<not> isRunning (state (step sample_commands (Resume 0) rejected)) \<and>
   inflight (step sample_commands (Resume 0) rejected) = []"
proof -
  have a: "\<not> isRunning (state typed_fetch)"
          "trim (inputText (state typed_fetch)) = js ''fetch slow''" "js ''fetch slow'' \<noteq> []"
    by (simp_all add: typed_fetch_eq useTerminal_def trim_def isWhiteSpace_def js_def)
  have p: "parseInput (js ''fetch slow'') = (js ''fetch'', [js ''slow''])"
    by (simp add: parseInput_def js_def space_def)
  have f: "find (\<lambda>commandDefinition. name commandDefinition = js ''fetch'') sample_commands
             = Some fetch"
    by (simp add: sample_commands_def echo_def fetch_def js_def)
  have r: "isRunning (state rejected)" "inflight rejected = [Reject]"
    by (simp_all add: rejected_eq)
  have r': "0 < length (inflight rejected)" "settled (inflight rejected ! 0)"
    by (simp_all add: r settled_def)
  note t = execute_guaranteed_release [of typed_fetch "js ''fetch''" "[js ''slow'']"
             sample_commands fetch 0 rejected "[]" rejected Reject, unfolded a(2)]
  from t a(1,3) p f obtain s0 s1 h
    where d: "run_handler (handler fetch [js ''slow'']) s0 = (s1, h)" "isRunning s1"
      "if h = Throw
       then state (execute sample_commands typed_fetch) = s1\<lparr>isRunning := False\<rparr> \<and>
            inflight (execute sample_commands typed_fetch) = inflight typed_fetch
       else state (execute sample_commands typed_fetch) = s1 \<and>
            inflight (execute sample_commands typed_fetch) = inflight typed_fetch @ [h]"
    by blast
  from d(1) have "h \<noteq> Throw" by (auto simp: fetch_def)
  with d have e: "isRunning (state (execute sample_commands typed_fetch))" by simp
  from t r' have "\<not> isRunning (state (step sample_commands (Resume 0) rejected)) \<and>
      inflight (step sample_commands (Resume 0) rejected) =
        take 0 (inflight rejected) @ drop (Suc 0) (inflight rejected)"
    by blast
  with a p f r e show ?thesis by simp
qed

end
